theory Spec2Isabelle
  imports Main
begin

section \<open>JavaScript strings\<close>

text \<open>
  A JavaScript string is a sequence of UTF-16 code units.  A code unit is modelled by its
  number, an integer from 0 to 65535; \<open>length\<close> of the list is the string's \<open>.length\<close>.
  String literals of the source are written \<open>js ''...''\<close>; all of them are ASCII.
\<close>

type_synonym jsstring = "int list"

definition js :: "string \<Rightarrow> jsstring" where
  "js s = map of_char s"

definition hyphen :: int where "hyphen = 0x2D"
definition colon :: int where "colon = 0x3A"
definition emDash :: int where "emDash = 0x2014"
definition enDash :: int where "enDash = 0x2013"

text \<open>
  The regular-expression class \<open>\s\<close> of ECMAScript: WhiteSpace and LineTerminator code
  points.  All of them lie in the Basic Multilingual Plane, so a regex without the \<open>u\<close> flag
  tests them code unit by code unit.
\<close>

definition isWhiteSpace :: "int \<Rightarrow> bool" where
  "isWhiteSpace c \<longleftrightarrow>
     c = 0x09 \<or> c = 0x0A \<or> c = 0x0B \<or> c = 0x0C \<or> c = 0x0D \<or> c = 0x20 \<or> c = 0xA0 \<or>
     c = 0x1680 \<or> (0x2000 \<le> c \<and> c \<le> 0x200A) \<or> c = 0x2028 \<or> c = 0x2029 \<or>
     c = 0x202F \<or> c = 0x205F \<or> c = 0x3000 \<or> c = 0xFEFF"

text \<open>
  \<open>String.prototype.toLowerCase\<close> and \<open>toUpperCase\<close> convert code point by code point with
  the Unicode case mappings, some of which yield several code units.  The tables below are
  the Unicode mappings of every code unit below \<open>0x100\<close> (Basic Latin and Latin-1
  Supplement) and of U+212A KELVIN SIGN.  The runtime's entries for other code units are not
  part of the repository; the model leaves those code units unchanged, although the
  runtime maps many of them (Cyrillic and Greek letters, ligatures).  A theorem below
  that depends on what a case mapping yields is an evaluation at listed code units, or is
  stated for plain text, whose code units are boundary characters of the tokenizer or
  lie below \<open>0x100\<close>.
\<close>

definition lowerUnit :: "int \<Rightarrow> jsstring" where
  "lowerUnit c =
     (if 0x41 \<le> c \<and> c \<le> 0x5A then [c + 0x20]
      else if 0xC0 \<le> c \<and> c \<le> 0xDE \<and> c \<noteq> 0xD7 then [c + 0x20]
      else if c = 0x212A then [0x6B]
      else [c])"

definition upperUnit :: "int \<Rightarrow> jsstring" where
  "upperUnit c =
     (if 0x61 \<le> c \<and> c \<le> 0x7A then [c - 0x20]
      else if c = 0xB5 then [0x39C]
      else if c = 0xDF then [0x53, 0x53]
      else if 0xE0 \<le> c \<and> c \<le> 0xFE \<and> c \<noteq> 0xF7 then [c - 0x20]
      else if c = 0xFF then [0x178]
      else [c])"

definition toLowerCase :: "jsstring \<Rightarrow> jsstring" where
  "toLowerCase s = concat (map lowerUnit s)"

definition toUpperCase :: "jsstring \<Rightarrow> jsstring" where
  "toUpperCase s = concat (map upperUnit s)"

text \<open>\<open>Array.prototype.includes\<close> and \<open>Set.prototype.has\<close> on strings.\<close>

definition contains :: "'a list \<Rightarrow> 'a \<Rightarrow> bool" where
  "contains xs x \<longleftrightarrow> x \<in> set xs"

text \<open>\<open>String.prototype.split\<close> with a one-character separator, and \<open>Array.prototype.join\<close>.\<close>

fun split :: "jsstring \<Rightarrow> int \<Rightarrow> jsstring list" where
  "split [] d = [[]]"
| "split (c # cs) d =
     (if c = d then [] # split cs d
      else (case split cs d of [] \<Rightarrow> [[c]] | p # ps \<Rightarrow> (c # p) # ps))"

fun join :: "jsstring list \<Rightarrow> jsstring \<Rightarrow> jsstring" where
  "join [] d = []"
| "join [p] d = p"
| "join (p # q # ps) d = p @ d @ join (q # ps) d"

section \<open>TitleCaseModule: word lists\<close>

definition articles :: "jsstring list" where
  "articles = map js [''a'', ''an'', ''the'']"

definition coordinatingConjunctions :: "jsstring list" where
  "coordinatingConjunctions = map js [''and'', ''but'', ''for'', ''nor'', ''or'', ''yet'', ''so'']"

definition subordinatingConjunctions :: "jsstring list" where
  "subordinatingConjunctions = map js
     [''as'', ''if'', ''because'', ''when'', ''whenever'', ''while'', ''where'', ''whereas'',
      ''although'', ''though'', ''unless'', ''until'', ''since'', ''after'', ''before'',
      ''that'', ''whether'', ''once'', ''lest'', ''provided'', ''supposing'']"

definition prepositions1 :: "jsstring list" where
  "prepositions1 = map js [''v'']"

definition prepositions2 :: "jsstring list" where
  "prepositions2 = map js [''at'', ''by'', ''in'', ''of'', ''on'', ''to'', ''up'']"

definition prepositions3 :: "jsstring list" where
  "prepositions3 = map js
     [''for'', ''off'', ''out'', ''via'', ''per'', ''pro'', ''bar'', ''qua'', ''mid'']"

definition prepositions4 :: "jsstring list" where
  "prepositions4 = map js
     [''from'', ''into'', ''unto'', ''with'', ''amid'', ''atop'', ''down'', ''like'', ''near'',
      ''next'', ''over'', ''past'', ''plus'', ''sans'', ''save'', ''than'', ''thru'']"

definition prepositions5Plus :: "jsstring list" where
  "prepositions5Plus = map js
     [''about'', ''above'', ''across'', ''after'', ''against'', ''along'', ''among'', ''around'',
      ''before'', ''behind'', ''below'', ''beneath'', ''beside'', ''besides'', ''between'',
      ''beyond'', ''during'', ''except'', ''inside'', ''outside'', ''through'', ''throughout'',
      ''toward'', ''towards'', ''under'', ''underneath'', ''unlike'', ''until'', ''within'',
      ''without'', ''aboard'', ''absent'', ''across'', ''according'', ''alongside'', ''amidst'',
      ''amongst'', ''around'', ''aslant'', ''astride'', ''barring'', ''beside'', ''besides'',
      ''betwixt'', ''circa'', ''concerning'', ''considering'', ''despite'', ''excluding'',
      ''failing'', ''following'', ''given'', ''including'', ''notwithstanding'', ''opposite'',
      ''pending'', ''regarding'', ''respecting'', ''round'', ''saving'', ''touching'', ''versus'']"

definition nytLowercaseWords :: "jsstring list" where
  "nytLowercaseWords = map js
     [''a'', ''and'', ''as'', ''at'', ''but'', ''by'', ''en'', ''for'', ''if'', ''in'', ''of'', ''on'',
      ''or'', ''the'', ''to'', ''v.'', ''vs.'', ''via'']"

definition nytCapitalizeWords :: "jsstring list" where
  "nytCapitalizeWords = map js [''no'', ''nor'', ''not'', ''off'', ''out'', ''so'', ''up'']"

definition isPreposition :: "jsstring \<Rightarrow> bool" where
  "isPreposition lowerWord \<longleftrightarrow>
     contains prepositions1 lowerWord \<or> contains prepositions2 lowerWord \<or>
     contains prepositions3 lowerWord \<or> contains prepositions4 lowerWord \<or>
     contains prepositions5Plus lowerWord"

section \<open>TitleCaseModule: the style rule engine\<close>

text \<open>\<open>capitalize\<close>: \<open>charAt(0)\<close> is \<open>take 1\<close>, \<open>slice(1)\<close> is \<open>drop 1\<close>.\<close>

definition capitalize :: "jsstring \<Rightarrow> jsstring" where
  "capitalize word =
     (if word = [] then word
      else toUpperCase (take 1 word) @ toLowerCase (drop 1 word))"

definition applyPrepositionRules :: "jsstring \<Rightarrow> jsstring \<Rightarrow> jsstring \<Rightarrow> jsstring" where
  "applyPrepositionRules word lowerWord style =
     (if style = js ''AMA'' \<or> style = js ''AP'' \<or> style = js ''APA'' then
        (if length word \<le> 3 then lowerWord else capitalize word)
      else if style = js ''Bluebook'' \<or> style = js ''Chicago'' \<or> style = js ''Wikipedia'' then
        (if length word \<le> 4 then lowerWord else capitalize word)
      else if style = js ''MLA'' then lowerWord
      else if style = js ''New York Times'' then
        (if contains nytLowercaseWords lowerWord then lowerWord
         else if contains nytCapitalizeWords lowerWord then capitalize word
         else if length word \<ge> 4 then capitalize word else lowerWord)
      else capitalize word)"

text \<open>
  \<open>applyNLPAwareRules\<close> returns \<open>null\<close> (here \<open>None\<close>) when it has no verdict.  The
  parameter \<open>posTag\<close> is not read by the source.
\<close>

definition applyNLPAwareRules ::
  "jsstring \<Rightarrow> jsstring \<Rightarrow> jsstring \<Rightarrow> jsstring option \<Rightarrow> jsstring \<Rightarrow> jsstring option" where
  "applyNLPAwareRules word lowerWord grammaticalFunction posTag style =
     (if contains (map js [''verb'', ''noun'', ''adjective'', ''adverb'', ''pronoun''])
           grammaticalFunction
      then Some (capitalize word)
      else if grammaticalFunction = js ''article'' then Some lowerWord
      else if grammaticalFunction = js ''infinitive'' then
        Some (if style = js ''AP'' then capitalize word else lowerWord)
      else if grammaticalFunction = js ''conjunction''
              \<and> contains coordinatingConjunctions lowerWord then
        (if style = js ''Chicago'' \<and> contains (map js [''yet'', ''so'']) lowerWord
         then Some (capitalize word)
         else if style = js ''New York Times'' \<and> contains (map js [''so'', ''nor'']) lowerWord
         then Some (capitalize word)
         else Some lowerWord)
      else if grammaticalFunction = js ''conjunction''
              \<and> contains subordinatingConjunctions lowerWord then
        (if contains (map js [''AMA'', ''Bluebook'', ''Chicago'', ''MLA'', ''Wikipedia'']) style then
           (if style = js ''Chicago'' \<and> lowerWord = js ''as'' then Some lowerWord
            else Some (capitalize word))
         else if contains (map js [''AP'', ''APA'', ''New York Times'']) style \<and> length word \<le> 3
         then Some lowerWord
         else Some (capitalize word))
      else if grammaticalFunction = js ''preposition'' then
        Some (applyPrepositionRules word lowerWord style)
      else None)"

definition applyAMARules :: "jsstring \<Rightarrow> jsstring \<Rightarrow> jsstring" where
  "applyAMARules word lowerWord =
     (if contains articles lowerWord then lowerWord
      else if contains coordinatingConjunctions lowerWord then lowerWord
      else if isPreposition lowerWord \<and> length word \<le> 3 then lowerWord
      else if lowerWord = js ''to'' then lowerWord
      else capitalize word)"

definition applyAPRules :: "jsstring \<Rightarrow> jsstring \<Rightarrow> jsstring" where
  "applyAPRules word lowerWord =
     (if length word \<ge> 4 then capitalize word
      else if contains articles lowerWord then lowerWord
      else if contains coordinatingConjunctions lowerWord \<and> length word \<le> 3 then lowerWord
      else if contains subordinatingConjunctions lowerWord \<and> length word \<le> 3 then lowerWord
      else if isPreposition lowerWord \<and> length word \<le> 3 \<and> lowerWord \<noteq> js ''to''
      then lowerWord
      else capitalize word)"

definition applyAPARules :: "jsstring \<Rightarrow> jsstring \<Rightarrow> jsstring" where
  "applyAPARules word lowerWord =
     (if length word \<ge> 4 then capitalize word
      else if contains articles lowerWord then lowerWord
      else if contains coordinatingConjunctions lowerWord then lowerWord
      else if contains subordinatingConjunctions lowerWord \<and> length word \<le> 3 then lowerWord
      else if isPreposition lowerWord \<and> length word \<le> 3 then lowerWord
      else capitalize word)"

definition applyBluebookRules :: "jsstring \<Rightarrow> jsstring \<Rightarrow> jsstring" where
  "applyBluebookRules word lowerWord =
     (if contains articles lowerWord then lowerWord
      else if contains coordinatingConjunctions lowerWord then lowerWord
      else if isPreposition lowerWord \<and> length word \<le> 4 then lowerWord
      else capitalize word)"

definition applyChicagoRules :: "jsstring \<Rightarrow> jsstring \<Rightarrow> jsstring" where
  "applyChicagoRules word lowerWord =
     (if contains articles lowerWord then lowerWord
      else if contains (map js [''and'', ''but'', ''for'', ''nor'', ''or'']) lowerWord then lowerWord
      else if lowerWord = js ''as'' then lowerWord
      else if lowerWord = js ''to'' then lowerWord
      else if isPreposition lowerWord \<and> length word \<le> 4 then lowerWord
      else capitalize word)"

definition applyMLARules :: "jsstring \<Rightarrow> jsstring \<Rightarrow> jsstring" where
  "applyMLARules word lowerWord =
     (if contains articles lowerWord then lowerWord
      else if contains coordinatingConjunctions lowerWord then lowerWord
      else if isPreposition lowerWord then lowerWord
      else if lowerWord = js ''to'' then lowerWord
      else capitalize word)"

definition applyNYTRules :: "jsstring \<Rightarrow> jsstring \<Rightarrow> jsstring" where
  "applyNYTRules word lowerWord =
     (if length word \<ge> 4 then capitalize word
      else if contains nytCapitalizeWords lowerWord then capitalize word
      else if contains nytLowercaseWords lowerWord then lowerWord
      else if lowerWord = js ''v.'' \<or> lowerWord = js ''vs.'' then lowerWord
      else capitalize word)"

definition applyWikipediaRules :: "jsstring \<Rightarrow> jsstring \<Rightarrow> jsstring" where
  "applyWikipediaRules word lowerWord =
     (if contains articles lowerWord then lowerWord
      else if contains coordinatingConjunctions lowerWord then lowerWord
      else if isPreposition lowerWord \<and> length word \<le> 4 then lowerWord
      else if lowerWord = js ''to'' then lowerWord
      else capitalize word)"

text \<open>
  \<open>handleHyphenatedWord\<close>: the callback of \<open>parts.map\<close> is \<open>hyphenPart\<close>; the parameter
  \<open>isLast\<close> is not read by the source.
\<close>

definition hyphenPart :: "bool \<Rightarrow> jsstring \<Rightarrow> nat \<times> jsstring \<Rightarrow> jsstring" where
  "hyphenPart isFirst style ip =
     (let index = fst ip; part = snd ip; lowerPart = toLowerCase part in
      if index = 0 \<and> isFirst then capitalize part
      else if style = js ''AMA'' then capitalize part
      else if style = js ''Chicago'' then
        (if index = 0 then capitalize part
         else if contains articles lowerPart then lowerPart
         else if contains coordinatingConjunctions lowerPart then lowerPart
         else if isPreposition lowerPart then lowerPart
         else capitalize part)
      else if style = js ''APA'' then capitalize part
      else if style = js ''MLA'' then
        (if contains articles lowerPart then lowerPart
         else if contains coordinatingConjunctions lowerPart then lowerPart
         else if isPreposition lowerPart then lowerPart
         else capitalize part)
      else capitalize part)"

definition handleHyphenatedWord :: "jsstring \<Rightarrow> bool \<Rightarrow> bool \<Rightarrow> jsstring \<Rightarrow> jsstring" where
  "handleHyphenatedWord word isFirst isLast style =
     (let parts = split word hyphen
      in join (map (hyphenPart isFirst style) (zip [0 ..< length parts] parts)) [hyphen])"

text \<open>
  \<open>applyStyleRules\<close>.  \<open>grammaticalFunction\<close> is \<open>null\<close> or a string; the test
  \<open>if (grammaticalFunction)\<close> holds for a non-empty string.
\<close>

definition applyStyleRules ::
  "jsstring \<Rightarrow> jsstring \<Rightarrow> bool \<Rightarrow> bool \<Rightarrow> bool \<Rightarrow> jsstring \<Rightarrow> jsstring option \<Rightarrow>
   jsstring option \<Rightarrow> jsstring" where
  "applyStyleRules word lowerWord isFirst isLast afterColon style grammaticalFunction posTag =
     (if contains word hyphen then handleHyphenatedWord word isFirst isLast style
      else if isFirst then capitalize word
      else
        let capitalizeLastWord = \<not> contains (map js [''AMA'', ''APA'', ''Bluebook'']) style;
            nlpResult =
              (case grammaticalFunction of
                 None \<Rightarrow> None
               | Some g \<Rightarrow> if g = [] then None
                           else applyNLPAwareRules word lowerWord g posTag style)
        in
        if isLast \<and> capitalizeLastWord then capitalize word
        else if afterColon \<and> style = js ''APA'' then capitalize word
        else if nlpResult \<noteq> None then the nlpResult
        else if style = js ''AMA'' then applyAMARules word lowerWord
        else if style = js ''AP'' then applyAPRules word lowerWord
        else if style = js ''APA'' then applyAPARules word lowerWord
        else if style = js ''Bluebook'' then applyBluebookRules word lowerWord
        else if style = js ''Chicago'' then applyChicagoRules word lowerWord
        else if style = js ''MLA'' then applyMLARules word lowerWord
        else if style = js ''New York Times'' then applyNYTRules word lowerWord
        else if style = js ''Wikipedia'' then applyWikipediaRules word lowerWord
        else capitalize word)"

section \<open>TitleCaseModule: the tokenizer\<close>

record token =
  original :: jsstring
  word :: "jsstring option"
  isFirstWord :: bool
  isLastWord :: bool
  afterColon :: bool
  posTag :: "jsstring option"
  grammaticalFunction :: "jsstring option"

text \<open>
  A separator token is the object \<open>{ original: between, word: null }\<close>; its other fields are
  \<open>undefined\<close> in the source and are never read.
\<close>

definition separatorToken :: "jsstring \<Rightarrow> token" where
  "separatorToken between =
     \<lparr>original = between, word = None, isFirstWord = False, isLastWord = False,
      afterColon = False, posTag = None, grammaticalFunction = None\<rparr>"

text \<open>
  The tokenizer's regular expression matches runs of characters of a negated class that
  lists \<open>\s\<close>, the hyphen, the em dash U+2014 and the en dash U+2013.  \<open>isBoundary\<close> holds
  for the listed characters, those outside the class.
\<close>

definition isBoundary :: "int \<Rightarrow> bool" where
  "isBoundary c \<longleftrightarrow> isWhiteSpace c \<or> c = hyphen \<or> c = emDash \<or> c = enDash"

text \<open>
  One call of \<open>regex.exec(text)\<close> for this regular expression, which is global.  The
  argument is \<open>text.substring(regex.lastIndex)\<close>.  The result is \<open>None\<close> when there is no
  further match; otherwise it is the text skipped before the match (\<open>match.index\<close> exceeds
  \<open>lastIndex\<close> exactly when it is non-empty), the match \<open>match[0]\<close>, which is the longest run
  of class characters starting there, and the text after the new \<open>regex.lastIndex\<close>.
\<close>

definition regex_exec :: "jsstring \<Rightarrow> (jsstring \<times> jsstring \<times> jsstring) option" where
  "regex_exec s =
     (let between = takeWhile isBoundary s; r = dropWhile isBoundary s
      in if r = [] then None
         else Some (between, takeWhile (\<lambda>c. \<not> isBoundary c) r,
                    dropWhile (\<lambda>c. \<not> isBoundary c) r))"

lemma regex_exec_shorter:
  assumes "regex_exec s = Some (between, m, rest)"
  shows "length rest < length s"
proof -
  obtain r where r: "r = dropWhile isBoundary s" by simp
  from assms r have ne: "r \<noteq> []" and rest: "rest = dropWhile (\<lambda>c. \<not> isBoundary c) r"
    by (auto simp: regex_exec_def Let_def split: if_splits)
  from ne r have "\<not> isBoundary (hd r)"
    using hd_dropWhile [of isBoundary s] by simp
  with ne obtain c cs where cs: "r = c # cs" and c: "\<not> isBoundary c"
    by (cases r) auto
  have "length rest \<le> length cs"
    using length_dropWhile_le [of "\<lambda>c. \<not> isBoundary c" cs] by (simp add: rest cs c)
  also have "\<dots> < length r"
    by (simp add: cs)
  also have "\<dots> \<le> length s"
    unfolding r by (rule length_dropWhile_le)
  finally show ?thesis .
qed

text \<open>\<open>text.match(regex)\<close> for the global regex: all matches, left to right.\<close>

function text_match :: "jsstring \<Rightarrow> jsstring list" where
  "text_match s =
     (case regex_exec s of
        None \<Rightarrow> []
      | Some (between, m, rest) \<Rightarrow> m # text_match rest)"
  by pat_completeness auto
termination
  by (relation "measure length") (auto dest: regex_exec_shorter)

text \<open>
  The optional tagger, the field \<open>this.nlp\<close>, is an argument of \<open>tokenize\<close> and
  \<open>toTitleCase\<close>; \<open>None\<close> is \<open>null\<close>.  The library behind it is not part of the
  repository: a tagger gives, for the terms the library reports for the text, the pairs
  \<open>(posTag, grammaticalFunction)\<close> that \<open>getPOSTag\<close> and \<open>determineGrammaticalFunction\<close>
  compute from the library's term objects, a component being \<open>None\<close> where the call
  throws or answers \<open>null\<close>, and no pairs at all when the analysis throws.
\<close>

type_synonym tagger = "jsstring \<Rightarrow> (jsstring option \<times> jsstring option) list"

text \<open>
  The \<open>while\<close> loop of \<open>tokenize\<close>, from the text after \<open>lastIndex\<close>; \<open>tags\<close> are the terms
  from \<open>nlpIndex\<close> on.  After the loop the remaining text, if any, is one more separator.
\<close>

function tokenize_loop ::
  "jsstring \<Rightarrow> nat \<Rightarrow> nat \<Rightarrow> bool \<Rightarrow> (jsstring option \<times> jsstring option) list \<Rightarrow> token list" where
  "tokenize_loop rest wordIndex totalWords previousWasColon tags =
     (case regex_exec rest of
        None \<Rightarrow> (if rest \<noteq> [] then [separatorToken rest] else [])
      | Some (between, m, rest') \<Rightarrow>
          (if between \<noteq> [] then [separatorToken between] else []) @
          \<lparr>original = m, word = Some m,
           isFirstWord = (wordIndex = 0),
           isLastWord = (int wordIndex = int totalWords - 1),
           afterColon = (previousWasColon \<or> (between \<noteq> [] \<and> contains between colon)),
           posTag = (case tags of [] \<Rightarrow> None | t # ts \<Rightarrow> fst t),
           grammaticalFunction = (case tags of [] \<Rightarrow> None | t # ts \<Rightarrow> snd t)\<rparr> #
          tokenize_loop rest' (wordIndex + 1) totalWords False (tl tags))"
  by pat_completeness auto
termination
  by (relation "measure (\<lambda>(rest, wordIndex, totalWords, previousWasColon, tags). length rest)")
     (auto dest: regex_exec_shorter)

definition tokenize :: "tagger option \<Rightarrow> jsstring \<Rightarrow> token list" where
  "tokenize nlp text =
     tokenize_loop text 0 (length (text_match text)) False
       (case nlp of None \<Rightarrow> [] | Some tag \<Rightarrow> tag text)"

section \<open>TitleCaseModule: the conversion\<close>

text \<open>
  The body of the \<open>for\<close> loop of \<open>toTitleCase\<close>: what is pushed on \<open>result\<close> for one token.
  \<open>!token.word\<close> holds for \<open>null\<close> and for the empty string.
\<close>

definition convertToken :: "jsstring \<Rightarrow> token \<Rightarrow> jsstring" where
  "convertToken style token =
     (case word token of
        None \<Rightarrow> original token
      | Some w \<Rightarrow>
          if w = [] then original token
          else applyStyleRules w (toLowerCase w) (isFirstWord token) (isLastWord token)
                 (afterColon token) style (grammaticalFunction token) (posTag token))"

definition toTitleCase :: "tagger option \<Rightarrow> jsstring \<Rightarrow> jsstring \<Rightarrow> jsstring" where
  "toTitleCase nlp text style = concat (map (convertToken style) (tokenize nlp text))"

section \<open>Notions used in the statements\<close>

text \<open>
  The shape of the tokens of \<open>tokenize\<close>: a separator token is a non-empty run of boundary
  characters, a word token a non-empty run of other characters.
\<close>

definition wordTokenOk :: "token \<Rightarrow> bool" where
  "wordTokenOk t \<longleftrightarrow>
     (case word t of
        None \<Rightarrow> original t \<noteq> [] \<and> (\<forall>c\<in>set (original t). isBoundary c)
      | Some w \<Rightarrow> original t = w \<and> w \<noteq> [] \<and> (\<forall>c\<in>set w. \<not> isBoundary c))"

text \<open>A word token as \<open>tokenize\<close> builds it without a tagger and after no colon.\<close>

definition wordToken :: "jsstring \<Rightarrow> bool \<Rightarrow> bool \<Rightarrow> token" where
  "wordToken m isFirst isLast =
     \<lparr>original = m, word = Some m, isFirstWord = isFirst, isLastWord = isLast,
      afterColon = False, posTag = None, grammaticalFunction = None\<rparr>"

text \<open>The word tokens of a token list, and the eight style identifiers of the settings.\<close>

definition wordTokens :: "token list \<Rightarrow> token list" where
  "wordTokens tokens = filter (\<lambda>t. word t \<noteq> None) tokens"

definition styleGuides :: "jsstring list" where
  "styleGuides = map js [''AMA'', ''AP'', ''APA'', ''Bluebook'', ''Chicago'', ''MLA'',
     ''New York Times'', ''Wikipedia'']"

text \<open>
  Plain text: every code unit is a boundary character of the tokenizer or lies below
  \<open>0x100\<close> and is none of U+00B5 (micro sign), U+00DF (sharp s) and U+00FF (y with
  diaeresis).  On such code units both case conversions map one code unit to one code
  unit of the same kind, as \<open>simpleLower\<close> and \<open>simpleUpper\<close> do.
\<close>

definition simpleLower :: "int \<Rightarrow> int" where
  "simpleLower c =
     (if (0x41 \<le> c \<and> c \<le> 0x5A) \<or> (0xC0 \<le> c \<and> c \<le> 0xDE \<and> c \<noteq> 0xD7) then c + 0x20
      else c)"

definition simpleUpper :: "int \<Rightarrow> int" where
  "simpleUpper c =
     (if (0x61 \<le> c \<and> c \<le> 0x7A) \<or> (0xE0 \<le> c \<and> c \<le> 0xFE \<and> c \<noteq> 0xF7) then c - 0x20
      else c)"

definition plainUnit :: "int \<Rightarrow> bool" where
  "plainUnit c \<longleftrightarrow>
     (0 \<le> c \<and> c < 0x100 \<and> c \<noteq> 0xB5 \<and> c \<noteq> 0xDF \<and> c \<noteq> 0xFF) \<or> isBoundary c"

definition plainText :: "jsstring \<Rightarrow> bool" where
  "plainText s \<longleftrightarrow> list_all plainUnit s"


text \<open>A token with its text in lower case, and the \<open>switch\<close> of \<open>applyStyleRules\<close>.\<close>

definition lowerToken :: "token \<Rightarrow> token" where
  "lowerToken t =
     t\<lparr>original := map simpleLower (original t), word := map_option (map simpleLower) (word t)\<rparr>"

definition staticRules :: "jsstring \<Rightarrow> jsstring \<Rightarrow> jsstring \<Rightarrow> jsstring" where
  "staticRules style w lw =
     (if style = js ''AMA'' then applyAMARules w lw
      else if style = js ''AP'' then applyAPRules w lw
      else if style = js ''APA'' then applyAPARules w lw
      else if style = js ''Bluebook'' then applyBluebookRules w lw
      else if style = js ''Chicago'' then applyChicagoRules w lw
      else if style = js ''MLA'' then applyMLARules w lw
      else if style = js ''New York Times'' then applyNYTRules w lw
      else if style = js ''Wikipedia'' then applyWikipediaRules w lw
      else capitalize w)"

section \<open>The tokenizer's loop\<close>

declare tokenize_loop.simps [simp del] text_match.simps [simp del]

lemma regex_exec_SomeD:
  assumes "regex_exec s = Some (between, m, rest)"
  shows "s = between @ m @ rest" and "m \<noteq> []" and "\<forall>c\<in>set m. \<not> isBoundary c"
    and "\<forall>c\<in>set between. isBoundary c"
proof -
  obtain r where r: "r = dropWhile isBoundary s" by simp
  from assms r have ne: "r \<noteq> []" and b: "between = takeWhile isBoundary s"
    and m: "m = takeWhile (\<lambda>c. \<not> isBoundary c) r"
    and rest: "rest = dropWhile (\<lambda>c. \<not> isBoundary c) r"
    by (auto simp: regex_exec_def Let_def split: if_splits)
  show "s = between @ m @ rest"
    by (simp add: b m rest r)
  from ne r have "\<not> isBoundary (hd r)"
    using hd_dropWhile [of isBoundary s] by simp
  with ne show "m \<noteq> []"
    by (cases r) (auto simp: m)
  show "\<forall>c\<in>set m. \<not> isBoundary c"
    by (auto simp: m dest: set_takeWhileD)
  show "\<forall>c\<in>set between. isBoundary c"
    by (auto simp: b dest: set_takeWhileD)
qed

lemma regex_exec_NoneD:
  assumes "regex_exec s = None"
  shows "\<forall>c\<in>set s. isBoundary c"
  using assms by (auto simp: regex_exec_def Let_def split: if_splits)

lemma tokenize_loop_None:
  "regex_exec rest = None \<Longrightarrow>
   tokenize_loop rest wordIndex totalWords previousWasColon tags =
     (if rest \<noteq> [] then [separatorToken rest] else [])"
  by (subst tokenize_loop.simps) simp

lemma tokenize_loop_Some:
  "regex_exec rest = Some (between, m, rest') \<Longrightarrow>
   tokenize_loop rest wordIndex totalWords previousWasColon tags =
     (if between \<noteq> [] then [separatorToken between] else []) @
     \<lparr>original = m, word = Some m,
      isFirstWord = (wordIndex = 0),
      isLastWord = (int wordIndex = int totalWords - 1),
      afterColon = (previousWasColon \<or> (between \<noteq> [] \<and> contains between colon)),
      posTag = (case tags of [] \<Rightarrow> None | t # ts \<Rightarrow> fst t),
      grammaticalFunction = (case tags of [] \<Rightarrow> None | t # ts \<Rightarrow> snd t)\<rparr> #
     tokenize_loop rest' (wordIndex + 1) totalWords False (tl tags)"
  by (subst tokenize_loop.simps) simp

lemma text_match_None: "regex_exec s = None \<Longrightarrow> text_match s = []"
  by (subst text_match.simps) simp

lemma text_match_Some:
  "regex_exec s = Some (between, m, rest) \<Longrightarrow> text_match s = m # text_match rest"
  by (subst text_match.simps) simp

text \<open>Tokenization loses nothing: the tokens, concatenated, are the text.\<close>

lemma tokenize_loop_concat:
  "concat (map original (tokenize_loop s wi tw pc tags)) = s"
proof (induction s wi tw pc tags rule: tokenize_loop.induct)
  case (1 rest wordIndex totalWords previousWasColon tags)
  show ?case
  proof (cases "regex_exec rest")
    case None
    then show ?thesis
      by (simp add: tokenize_loop_None separatorToken_def)
  next
    case (Some a)
    then obtain between m rest' where ex: "regex_exec rest = Some (between, m, rest')"
      by (cases a) auto
    have "concat (map original (tokenize_loop rest wordIndex totalWords previousWasColon tags))
            = between @ m @ rest'"
      unfolding tokenize_loop_Some [OF ex] using "1.IH" [OF ex refl refl]
      by (simp add: separatorToken_def)
    with regex_exec_SomeD(1) [OF ex] show ?thesis
      by simp
  qed
qed

lemma tokenize_loop_tokens:
  "t \<in> set (tokenize_loop s wi tw pc tags) \<Longrightarrow> wordTokenOk t"
proof (induction s wi tw pc tags rule: tokenize_loop.induct)
  case (1 rest wordIndex totalWords previousWasColon tags)
  show ?case
  proof (cases "regex_exec rest")
    case None
    with "1.prems" regex_exec_NoneD [OF None] show ?thesis
      by (auto simp: tokenize_loop_None separatorToken_def wordTokenOk_def split: if_splits)
  next
    case (Some a)
    then obtain between m rest' where ex: "regex_exec rest = Some (between, m, rest')"
      by (cases a) auto
    note d = regex_exec_SomeD [OF ex]
    from "1.prems" consider "between \<noteq> []" "t = separatorToken between"
      | "t = \<lparr>original = m, word = Some m,
      isFirstWord = (wordIndex = 0),
      isLastWord = (int wordIndex = int totalWords - 1),
      afterColon = (previousWasColon \<or> (between \<noteq> [] \<and> contains between colon)),
      posTag = (case tags of [] \<Rightarrow> None | t # ts \<Rightarrow> fst t),
      grammaticalFunction = (case tags of [] \<Rightarrow> None | t # ts \<Rightarrow> snd t)\<rparr>"
      | "t \<in> set (tokenize_loop rest' (wordIndex + 1) totalWords False (tl tags))"
      by (auto simp: tokenize_loop_Some [OF ex] split: if_splits)
    then show ?thesis
    proof cases
      case 1
      with d(4) show ?thesis by (simp add: separatorToken_def wordTokenOk_def)
    next
      case 2
      with d(2,3) show ?thesis by (simp add: wordTokenOk_def)
    next
      case 3
      with "1.IH" [OF ex refl refl] show ?thesis by simp
    qed
  qed
qed

lemma regex_exec_word:
  assumes m: "m \<noteq> []" "\<forall>c\<in>set m. \<not> isBoundary c"
    and b: "\<forall>c\<in>set b. isBoundary c"
    and r: "r = [] \<or> isBoundary (hd r)"
  shows "regex_exec (b @ m @ r) = Some (b, m, r)"
proof -
  from m obtain c cs where cs: "m = c # cs" and c: "\<not> isBoundary c"
    by (cases m) auto
  have tw: "takeWhile isBoundary (b @ m @ r) = b"
    using b c by (simp add: cs takeWhile_append2 [of b])
  have dw: "dropWhile isBoundary (b @ m @ r) = m @ r"
    using b c by (simp add: cs)
  have tw2: "takeWhile (\<lambda>c. \<not> isBoundary c) (m @ r) = m"
    using m(2) r by (cases r) auto
  have dw2: "dropWhile (\<lambda>c. \<not> isBoundary c) (m @ r) = r"
    using m(2) r by (cases r) auto
  show ?thesis
    unfolding regex_exec_def Let_def tw dw tw2 dw2 using m(1) by simp
qed

lemma regex_exec_Nil: "regex_exec [] = None"
  by (simp add: regex_exec_def)

lemma isBoundary_hyphen: "isBoundary hyphen"
  by (simp add: isBoundary_def)

lemma tokenize_tokens: "t \<in> set (tokenize nlp text) \<Longrightarrow> wordTokenOk t"
  unfolding tokenize_def by (rule tokenize_loop_tokens)

lemma word_token_no_hyphen:
  assumes "t \<in> set (tokenize nlp text)" and "word t = Some w"
  shows "\<not> contains w hyphen" and "w \<noteq> []" and "original t = w"
    and "\<forall>c\<in>set w. \<not> isBoundary c"
  using tokenize_tokens [OF assms(1)] assms(2) isBoundary_hyphen
  by (auto simp: wordTokenOk_def contains_def)

lemma tokenize_two_segments:
  assumes a: "a \<noteq> []" "\<forall>c\<in>set a. \<not> isBoundary c"
    and b: "b \<noteq> []" "\<forall>c\<in>set b. \<not> isBoundary c"
  shows "tokenize None (a @ [hyphen] @ b) =
           [wordToken a True False, separatorToken [hyphen], wordToken b False True]"
proof -
  have e1: "regex_exec (a @ hyphen # b) = Some ([], a, hyphen # b)"
    using regex_exec_word [of a "[]" "hyphen # b"] a isBoundary_hyphen by simp
  have e2: "regex_exec (hyphen # b) = Some ([hyphen], b, [])"
    using regex_exec_word [of b "[hyphen]" "[]"] b isBoundary_hyphen by simp
  have n: "length (text_match (a @ hyphen # b)) = 2"
    by (simp add: text_match_Some [OF e1] text_match_Some [OF e2]
          text_match_None [OF regex_exec_Nil])
  have c: "\<not> contains [hyphen] colon"
    by (simp add: contains_def hyphen_def colon_def)
  show ?thesis
    by (simp add: tokenize_def n tokenize_loop_Some [OF e1] tokenize_loop_Some [OF e2]
          tokenize_loop_None [OF regex_exec_Nil] wordToken_def c)
qed

section \<open>Positions of the word tokens\<close>

lemma wordTokens_loop_None:
  "regex_exec s = None \<Longrightarrow> wordTokens (tokenize_loop s wi tw pc tags) = []"
  by (simp add: tokenize_loop_None wordTokens_def separatorToken_def)

lemma wordTokens_loop_Some:
  "regex_exec s = Some (between, m, rest') \<Longrightarrow>
   wordTokens (tokenize_loop s wi tw pc tags) =
     \<lparr>original = m, word = Some m,
      isFirstWord = (wi = 0),
      isLastWord = (int wi = int tw - 1),
      afterColon = (pc \<or> (between \<noteq> [] \<and> contains between colon)),
      posTag = (case tags of [] \<Rightarrow> None | t # ts \<Rightarrow> fst t),
      grammaticalFunction = (case tags of [] \<Rightarrow> None | t # ts \<Rightarrow> snd t)\<rparr> #
     wordTokens (tokenize_loop rest' (wi + 1) tw False (tl tags))"
  by (simp add: tokenize_loop_Some wordTokens_def separatorToken_def)

lemma wordTokens_loop_length:
  "length (wordTokens (tokenize_loop s wi tw pc tags)) = length (text_match s)"
proof (induction s wi tw pc tags rule: tokenize_loop.induct)
  case (1 rest wordIndex totalWords previousWasColon tags)
  show ?case
  proof (cases "regex_exec rest")
    case None
    then show ?thesis
      by (simp add: wordTokens_loop_None text_match_None)
  next
    case (Some a)
    then obtain between m rest' where ex: "regex_exec rest = Some (between, m, rest')"
      by (cases a) auto
    from "1.IH" [OF ex refl refl] show ?thesis
      by (simp add: wordTokens_loop_Some [OF ex] text_match_Some [OF ex])
  qed
qed

lemma wordTokens_loop_flags:
  "i < length (wordTokens (tokenize_loop s wi tw pc tags)) \<Longrightarrow>
   isFirstWord (wordTokens (tokenize_loop s wi tw pc tags) ! i) = (wi + i = 0) \<and>
   isLastWord (wordTokens (tokenize_loop s wi tw pc tags) ! i) = (wi + i + 1 = tw)"
proof (induction s wi tw pc tags arbitrary: i rule: tokenize_loop.induct)
  case (1 rest wordIndex totalWords previousWasColon tags)
  show ?case
  proof (cases "regex_exec rest")
    case None
    with "1.prems" show ?thesis
      by (simp add: wordTokens_loop_None)
  next
    case (Some a)
    then obtain between m rest' where ex: "regex_exec rest = Some (between, m, rest')"
      by (cases a) auto
    show ?thesis
    proof (cases i)
      case 0
      then show ?thesis
        by (auto simp: wordTokens_loop_Some [OF ex])
    next
      case (Suc j)
      with "1.prems" have "j < length (wordTokens (tokenize_loop rest' (wordIndex + 1) totalWords False (tl tags)))"
        by (simp add: wordTokens_loop_Some [OF ex])
      from "1.IH" [OF ex refl refl this] Suc show ?thesis
        by (simp add: wordTokens_loop_Some [OF ex])
    qed
  qed
qed

lemma wordTokens_flags:
  assumes "i < length (wordTokens (tokenize nlp text))"
  shows "isFirstWord (wordTokens (tokenize nlp text) ! i) = (i = 0)"
    and "isLastWord (wordTokens (tokenize nlp text) ! i)
           = (i + 1 = length (wordTokens (tokenize nlp text)))"
  using wordTokens_loop_flags [of i "text" 0 "length (text_match text)" False
          "case nlp of None \<Rightarrow> [] | Some tag \<Rightarrow> tag text"] assms
  by (simp_all add: tokenize_def wordTokens_loop_length)

lemma wordTokens_subset: "t \<in> set (wordTokens tokens) \<Longrightarrow> t \<in> set tokens \<and> word t \<noteq> None"
  by (simp add: wordTokens_def)

lemma tokenize_loop_untagged:
  "t \<in> set (tokenize_loop s wi tw pc []) \<Longrightarrow> grammaticalFunction t = None \<and> posTag t = None"
proof (induction s wi tw pc "[] :: (jsstring option \<times> jsstring option) list"
         rule: tokenize_loop.induct)
  case (1 rest wordIndex totalWords previousWasColon)
  show ?case
  proof (cases "regex_exec rest")
    case None
    with "1.prems" show ?thesis
      by (auto simp: tokenize_loop_None separatorToken_def split: if_splits)
  next
    case (Some a)
    then obtain between m rest' where ex: "regex_exec rest = Some (between, m, rest')"
      by (cases a) auto
    from "1.prems" "1.hyps" [OF ex refl refl] show ?thesis
      by (auto simp: tokenize_loop_Some [OF ex] separatorToken_def split: if_splits)
  qed
qed

lemma tokenize_untagged:
  "t \<in> set (tokenize None text) \<Longrightarrow> grammaticalFunction t = None \<and> posTag t = None"
  unfolding tokenize_def by (simp add: tokenize_loop_untagged)

text \<open>What the loop body does with a word token of the tokenizer.\<close>

lemma convertToken_word:
  assumes "t \<in> set (tokenize nlp text)" and "word t = Some w"
  shows "convertToken style t =
           applyStyleRules w (toLowerCase w) (isFirstWord t) (isLastWord t) (afterColon t) style
             (grammaticalFunction t) (posTag t)"
  using word_token_no_hyphen(2) [OF assms] assms(2) by (simp add: convertToken_def)

lemma applyStyleRules_first:
  "\<not> contains w hyphen \<Longrightarrow> applyStyleRules w lw True isLast ac style gf pt = capitalize w"
  by (simp add: applyStyleRules_def)

lemma applyStyleRules_last:
  "\<not> contains w hyphen \<Longrightarrow> \<not> contains (map js [''AMA'', ''APA'', ''Bluebook'']) style \<Longrightarrow>
   applyStyleRules w lw isFirst True ac style gf pt = capitalize w"
  by (simp add: applyStyleRules_def Let_def)

lemma applyStyleRules_static:
  "\<not> contains w hyphen \<Longrightarrow>
   applyStyleRules w lw False False ac style None pt =
     (if ac \<and> style = js ''APA'' then capitalize w
      else if style = js ''AMA'' then applyAMARules w lw
      else if style = js ''AP'' then applyAPRules w lw
      else if style = js ''APA'' then applyAPARules w lw
      else if style = js ''Bluebook'' then applyBluebookRules w lw
      else if style = js ''Chicago'' then applyChicagoRules w lw
      else if style = js ''MLA'' then applyMLARules w lw
      else if style = js ''New York Times'' then applyNYTRules w lw
      else if style = js ''Wikipedia'' then applyWikipediaRules w lw
      else capitalize w)"
  by (simp add: applyStyleRules_def Let_def)

lemma applyStyleRules_unknown:
  assumes "\<not> contains w hyphen" and "\<not> contains styleGuides style"
  shows "applyStyleRules w lw isFirst isLast ac style None pt = capitalize w"
proof -
  from assms(2) have s: "style \<noteq> js ''AMA''" "style \<noteq> js ''AP''" "style \<noteq> js ''APA''"
    "style \<noteq> js ''Bluebook''" "style \<noteq> js ''Chicago''" "style \<noteq> js ''MLA''"
    "style \<noteq> js ''New York Times''" "style \<noteq> js ''Wikipedia''"
    by (auto simp: contains_def styleGuides_def)
  with assms(1) show ?thesis
    by (simp add: applyStyleRules_def Let_def contains_def)
qed

lemma length_toLowerCase_ge: "length w \<le> length (toLowerCase w)"
proof (induction w)
  case Nil
  show ?case by (simp add: toLowerCase_def)
next
  case (Cons c w)
  have "1 \<le> length (lowerUnit c)"
    by (simp add: lowerUnit_def)
  with Cons show ?case
    by (simp add: toLowerCase_def)
qed

lemma length_js: "length (js s) = length s"
  by (simp add: js_def)

lemma nytLowercaseWords_short: "contains nytLowercaseWords lw \<Longrightarrow> length lw \<le> 3"
  by (auto simp: contains_def nytLowercaseWords_def length_js)

lemma nytLowercaseWords_not_capitalize:
  "contains nytLowercaseWords lw \<Longrightarrow> \<not> contains nytCapitalizeWords lw"
proof -
  have "list_all (\<lambda>x. \<not> contains nytCapitalizeWords x) nytLowercaseWords"
    by code_simp
  then show "contains nytLowercaseWords lw \<Longrightarrow> \<not> contains nytCapitalizeWords lw"
    by (simp add: list_all_iff contains_def [of nytLowercaseWords])
qed

lemma applyNYTRules_cases:
  shows "length w \<ge> 4 \<Longrightarrow> applyNYTRules w (toLowerCase w) = capitalize w"
    and "contains nytCapitalizeWords (toLowerCase w) \<Longrightarrow>
           applyNYTRules w (toLowerCase w) = capitalize w"
    and "contains nytLowercaseWords (toLowerCase w) \<Longrightarrow>
           applyNYTRules w (toLowerCase w) = toLowerCase w"
proof -
  show "length w \<ge> 4 \<Longrightarrow> applyNYTRules w (toLowerCase w) = capitalize w"
    by (simp add: applyNYTRules_def)
  show "contains nytCapitalizeWords (toLowerCase w) \<Longrightarrow>
           applyNYTRules w (toLowerCase w) = capitalize w"
    by (simp add: applyNYTRules_def)
  assume l: "contains nytLowercaseWords (toLowerCase w)"
  from nytLowercaseWords_short [OF l] length_toLowerCase_ge [of w] have "\<not> length w \<ge> 4"
    by simp
  with l nytLowercaseWords_not_capitalize [OF l]
  show "applyNYTRules w (toLowerCase w) = toLowerCase w"
    by (simp add: applyNYTRules_def)
qed

lemma applyMLARules_preposition:
  "isPreposition lw \<Longrightarrow> applyMLARules w lw = lw"
  by (simp add: applyMLARules_def)

section \<open>Case conversion of plain text\<close>

lemmas boundary_defs =
  isBoundary_def isWhiteSpace_def hyphen_def emDash_def enDash_def

lemma plainUnit_lowerUnit: "plainUnit c \<Longrightarrow> lowerUnit c = [simpleLower c]"
  by (auto simp: plainUnit_def boundary_defs lowerUnit_def simpleLower_def)

lemma plainUnit_upperUnit: "plainUnit c \<Longrightarrow> upperUnit c = [simpleUpper c]"
  by (auto simp: plainUnit_def boundary_defs upperUnit_def simpleUpper_def)

lemma isBoundary_simpleLower [simp]: "isBoundary (simpleLower c) = isBoundary c"
  by (auto simp: boundary_defs simpleLower_def)

lemma simpleLower_boundary: "isBoundary c \<Longrightarrow> simpleLower c = c"
  by (auto simp: boundary_defs simpleLower_def)

lemma simpleLower_idem [simp]: "simpleLower (simpleLower c) = simpleLower c"
  by (simp add: simpleLower_def)

lemma simpleUpper_simpleLower [simp]: "simpleUpper (simpleLower c) = simpleUpper c"
  by (simp add: simpleLower_def simpleUpper_def)

lemma simpleLower_simpleUpper [simp]: "simpleLower (simpleUpper c) = simpleLower c"
  by (simp add: simpleLower_def simpleUpper_def)

lemma plainUnit_simpleLower: "plainUnit c \<Longrightarrow> plainUnit (simpleLower c)"
  by (auto simp: plainUnit_def boundary_defs simpleLower_def)

lemma plainUnit_simpleUpper: "plainUnit c \<Longrightarrow> plainUnit (simpleUpper c)"
  by (auto simp: plainUnit_def boundary_defs simpleUpper_def)

lemma simpleLower_eq_hyphen [simp]: "simpleLower c = hyphen \<longleftrightarrow> c = hyphen"
  by (auto simp: simpleLower_def hyphen_def)

lemma simpleLower_eq_colon [simp]: "simpleLower c = colon \<longleftrightarrow> c = colon"
  by (auto simp: simpleLower_def colon_def)

lemma plainText_simps [simp]:
  "plainText []"
  "plainText (c # s) \<longleftrightarrow> plainUnit c \<and> plainText s"
  "plainText (s @ s') \<longleftrightarrow> plainText s \<and> plainText s'"
  by (auto simp: plainText_def)

lemma plainText_subset: "plainText s \<Longrightarrow> set w \<subseteq> set s \<Longrightarrow> plainText w"
  by (auto simp: plainText_def list_all_iff)

lemma toLowerCase_plain: "plainText s \<Longrightarrow> toLowerCase s = map simpleLower s"
  by (induction s) (simp_all add: toLowerCase_def plainUnit_lowerUnit)

lemma toUpperCase_plain: "plainText s \<Longrightarrow> toUpperCase s = map simpleUpper s"
  by (induction s) (simp_all add: toUpperCase_def plainUnit_upperUnit)

lemma plainText_map_simpleLower: "plainText s \<Longrightarrow> plainText (map simpleLower s)"
  by (induction s) (simp_all add: plainUnit_simpleLower)

lemma plainText_map_simpleUpper: "plainText s \<Longrightarrow> plainText (map simpleUpper s)"
  by (induction s) (simp_all add: plainUnit_simpleUpper)

lemma capitalize_plain:
  "plainText w \<Longrightarrow> capitalize w = map simpleUpper (take 1 w) @ map simpleLower (drop 1 w)"
  by (cases w) (simp_all add: capitalize_def toLowerCase_plain toUpperCase_plain)

lemma capitalize_facts:
  assumes "plainText w"
  shows "length (capitalize w) = length w"
    and "map simpleLower (capitalize w) = map simpleLower w"
    and "plainText (capitalize w)"
    and "capitalize (map simpleLower w) = capitalize w"
proof -
  show "length (capitalize w) = length w"
    using assms by (cases w) (simp_all add: capitalize_plain)
  show "map simpleLower (capitalize w) = map simpleLower w"
    using assms by (cases w) (simp_all add: capitalize_plain)
  show "plainText (capitalize w)"
    using assms
    by (cases w) (simp_all add: capitalize_plain plainText_map_simpleLower plainUnit_simpleUpper)
  show "capitalize (map simpleLower w) = capitalize w"
    using assms plainText_map_simpleLower [OF assms]
    by (cases w) (simp_all add: capitalize_plain)
qed

section \<open>The tokenizer on text in lower case\<close>

lemma map_simpleLower_boundary: "\<forall>c\<in>set b. isBoundary c \<Longrightarrow> map simpleLower b = b"
  by (induction b) (simp_all add: simpleLower_boundary)

lemma isBoundary_comp_simpleLower: "isBoundary \<circ> simpleLower = isBoundary"
  by (rule ext) simp

lemma notBoundary_comp_simpleLower:
  "(\<lambda>c. \<not> isBoundary c) \<circ> simpleLower = (\<lambda>c. \<not> isBoundary c)"
  by (rule ext) simp

lemma regex_exec_lower:
  "regex_exec (map simpleLower s) =
     map_option (\<lambda>(between, m, rest). (between, map simpleLower m, map simpleLower rest))
       (regex_exec s)"
proof -
  have b: "map simpleLower (takeWhile isBoundary s) = takeWhile isBoundary s"
    by (rule map_simpleLower_boundary) (auto dest: set_takeWhileD)
  show ?thesis
    by (simp add: regex_exec_def Let_def takeWhile_map dropWhile_map
          isBoundary_comp_simpleLower notBoundary_comp_simpleLower b)
qed

lemma text_match_lower: "text_match (map simpleLower s) = map (map simpleLower) (text_match s)"
proof (induction s rule: text_match.induct)
  case (1 s)
  show ?case
  proof (cases "regex_exec s")
    case None
    then have "regex_exec (map simpleLower s) = None"
      by (simp add: regex_exec_lower)
    with None show ?thesis
      by (simp add: text_match_None)
  next
    case (Some a)
    then obtain between m rest where ex: "regex_exec s = Some (between, m, rest)"
      by (cases a) auto
    then have ex': "regex_exec (map simpleLower s)
                     = Some (between, map simpleLower m, map simpleLower rest)"
      by (simp add: regex_exec_lower)
    from "1.IH" [OF ex refl refl] show ?thesis
      by (simp add: text_match_Some [OF ex] text_match_Some [OF ex'])
  qed
qed

lemma lowerToken_separator:
  "\<forall>c\<in>set b. isBoundary c \<Longrightarrow> lowerToken (separatorToken b) = separatorToken b"
  by (simp add: lowerToken_def separatorToken_def map_simpleLower_boundary)

lemma tokenize_loop_lower:
  "tokenize_loop (map simpleLower s) wi tw pc tags = map lowerToken (tokenize_loop s wi tw pc tags)"
proof (induction s wi tw pc tags rule: tokenize_loop.induct)
  case (1 rest wordIndex totalWords previousWasColon tags)
  show ?case
  proof (cases "regex_exec rest")
    case None
    then have n: "regex_exec (map simpleLower rest) = None"
      by (simp add: regex_exec_lower)
    from regex_exec_NoneD [OF None] have "map simpleLower rest = rest"
      by (rule map_simpleLower_boundary)
    with regex_exec_NoneD [OF None] show ?thesis
      by (simp add: tokenize_loop_None [OF None] tokenize_loop_None [OF n] lowerToken_separator)
  next
    case (Some a)
    then obtain between m rest' where ex: "regex_exec rest = Some (between, m, rest')"
      by (cases a) auto
    then have ex': "regex_exec (map simpleLower rest)
                     = Some (between, map simpleLower m, map simpleLower rest')"
      by (simp add: regex_exec_lower)
    from "1.IH" [OF ex refl refl] regex_exec_SomeD(4) [OF ex] show ?thesis
      by (simp add: tokenize_loop_Some [OF ex] tokenize_loop_Some [OF ex'] lowerToken_separator)
         (simp add: lowerToken_def)
  qed
qed

lemma tokenize_lower: "tokenize None (map simpleLower s) = map lowerToken (tokenize None s)"
  by (simp add: tokenize_def tokenize_loop_lower text_match_lower)

lemma tokenize_original_subset:
  assumes "t \<in> set (tokenize nlp text)"
  shows "set (original t) \<subseteq> set text"
proof -
  have "concat (map original (tokenize nlp text)) = text"
    unfolding tokenize_def by (rule tokenize_loop_concat)
  then have "set text = (\<Union>t\<in>set (tokenize nlp text). set (original t))"
    by (metis set_concat set_map image_image)
  with assms show ?thesis
    by auto
qed

section \<open>The rules depend on a word through its length and its capitalization\<close>

lemma applyStyleRules_untagged:
  "\<not> contains w hyphen \<Longrightarrow>
   applyStyleRules w lw f l ac style None pt =
     (if f then capitalize w
      else if l \<and> \<not> contains (map js [''AMA'', ''APA'', ''Bluebook'']) style then capitalize w
      else if ac \<and> style = js ''APA'' then capitalize w
      else staticRules style w lw)"
  by (simp only: applyStyleRules_def staticRules_def Let_def option.case if_False)
     (simp only: simp_thms if_True if_False)

lemmas rule_defs =
  applyAMARules_def applyAPRules_def applyAPARules_def applyBluebookRules_def
  applyChicagoRules_def applyMLARules_def applyNYTRules_def applyWikipediaRules_def

lemma staticRules_cong:
  assumes "length w' = length w" and "capitalize w' = capitalize w"
  shows "staticRules style w' lw = staticRules style w lw"
  unfolding staticRules_def rule_defs by (simp only: assms)

lemma if_pred: "P a \<Longrightarrow> P b \<Longrightarrow> P (if c then a else b)"
  by simp

lemma staticRules_cases:
  assumes "P lw" and "P (capitalize w)"
  shows "P (staticRules style w lw)"
  unfolding staticRules_def rule_defs by (intro if_pred [where P = P] assms)


lemma applyStyleRules_cases:
  assumes "\<not> contains w hyphen" and "P lw" and "P (capitalize w)"
  shows "P (applyStyleRules w lw f l ac style None pt)"
  unfolding applyStyleRules_untagged [OF assms(1)]
  by (intro if_pred [where P = P] staticRules_cases [where P = P] assms)

lemma applyStyleRules_cong:
  assumes "length w' = length w" and "capitalize w' = capitalize w"
    and "\<not> contains w hyphen" and "\<not> contains w' hyphen"
  shows "applyStyleRules w' lw f l ac style None pt = applyStyleRules w lw f l ac style None pt"
  unfolding applyStyleRules_untagged [OF assms(3)] applyStyleRules_untagged [OF assms(4)]
  by (simp only: assms(2) staticRules_cong [OF assms(1,2)])

lemma hyphen_eq_simpleLower [simp]: "hyphen = simpleLower c \<longleftrightarrow> c = hyphen"
  by (auto simp: simpleLower_def hyphen_def)

lemma contains_map_simpleLower_hyphen:
  "contains (map simpleLower w) hyphen \<longleftrightarrow> contains w hyphen"
  by (induction w) (auto simp: contains_def)

text \<open>The word tokens of plain text, and what the loop body makes of them.\<close>

lemma plain_word_token:
  assumes "plainText text" and "t \<in> set (tokenize None text)" and "word t = Some w"
  shows "plainText w" and "\<not> contains w hyphen" and "w \<noteq> []" and "original t = w"
    and "convertToken style t =
           applyStyleRules w (toLowerCase w) (isFirstWord t) (isLastWord t) (afterColon t) style
             None (posTag t)"
proof -
  note w = word_token_no_hyphen [OF assms(2,3)]
  from tokenize_original_subset [OF assms(2)] w(3) assms(1) show "plainText w"
    by (auto intro: plainText_subset)
  from w show "\<not> contains w hyphen" and "w \<noteq> []" and "original t = w"
    by simp_all
  from tokenize_untagged [OF assms(2)] convertToken_word [OF assms(2,3)]
  show "convertToken style t =
           applyStyleRules w (toLowerCase w) (isFirstWord t) (isLastWord t) (afterColon t) style
             None (posTag t)"
    by simp
qed

lemma convertToken_plain:
  assumes "plainText text" and "t \<in> set (tokenize None text)"
  shows "length (convertToken style t) = length (original t)
         \<and> map simpleLower (convertToken style t) = map simpleLower (original t)
         \<and> plainText (convertToken style t)"
proof (cases "word t")
  case None
  with assms tokenize_original_subset [OF assms(2)] show ?thesis
    by (auto simp: convertToken_def intro: plainText_subset)
next
  case (Some w)
  note p = plain_word_token [OF assms Some]
  have "length x = length w \<and> map simpleLower x = map simpleLower w \<and> plainText x"
    if "x = applyStyleRules w (toLowerCase w) f l ac style None pt" for x f l ac pt
    unfolding that
  proof (rule applyStyleRules_cases
           [where P = "\<lambda>x. length x = length w \<and> map simpleLower x = map simpleLower w
                          \<and> plainText x", OF p(2)])
    show "length (toLowerCase w) = length w
            \<and> map simpleLower (toLowerCase w) = map simpleLower w \<and> plainText (toLowerCase w)"
      using p(1) by (simp add: toLowerCase_plain plainText_map_simpleLower)
    show "length (capitalize w) = length w
            \<and> map simpleLower (capitalize w) = map simpleLower w \<and> plainText (capitalize w)"
      using capitalize_facts(1,2,3) [OF p(1)] by simp
  qed
  with p(4,5) show ?thesis
    by simp
qed

lemma convertToken_lowerToken:
  assumes "plainText text" and "t \<in> set (tokenize None text)"
  shows "convertToken style (lowerToken t) = convertToken style t"
proof (cases "word t")
  case None
  with tokenize_tokens [OF assms(2)] show ?thesis
    by (simp add: convertToken_def lowerToken_def wordTokenOk_def map_simpleLower_boundary)
next
  case (Some w)
  note p = plain_word_token [OF assms Some]
  have l: "toLowerCase (map simpleLower w) = toLowerCase w"
    using p(1) by (simp add: toLowerCase_plain plainText_map_simpleLower)
  have "convertToken style (lowerToken t) =
          applyStyleRules (map simpleLower w) (toLowerCase w) (isFirstWord t) (isLastWord t)
            (afterColon t) style None (posTag t)"
    using Some p(3) tokenize_untagged [OF assms(2)]
    by (simp add: convertToken_def lowerToken_def l)
  also have "\<dots> = applyStyleRules w (toLowerCase w) (isFirstWord t) (isLastWord t)
            (afterColon t) style None (posTag t)"
    using p(2) capitalize_facts(4) [OF p(1)]
    by (intro applyStyleRules_cong) (simp_all add: contains_map_simpleLower_hyphen)
  finally show ?thesis
    by (simp add: p(5))
qed

lemma toTitleCase_lower:
  assumes "plainText text"
  shows "toTitleCase None (map simpleLower text) style = toTitleCase None text style"
proof -
  have "map (convertToken style) (map lowerToken (tokenize None text))
          = map (convertToken style) (tokenize None text)"
    using convertToken_lowerToken [OF assms] by simp
  then show ?thesis
    by (simp only: toTitleCase_def tokenize_lower)
qed

lemma toTitleCase_plain:
  assumes "plainText text"
  shows "length (toTitleCase None text style) = length text"
    and "map simpleLower (toTitleCase None text style) = map simpleLower text"
    and "plainText (toTitleCase None text style)"
proof -
  have c: "concat (map original (tokenize None text)) = text"
    unfolding tokenize_def by (rule tokenize_loop_concat)
  have "map length (map (convertToken style) (tokenize None text))
          = map length (map original (tokenize None text))"
    using convertToken_plain [OF assms] by simp
  then have "length (concat (map (convertToken style) (tokenize None text)))
          = length (concat (map original (tokenize None text)))"
    by (simp only: length_concat)
  with c show "length (toTitleCase None text style) = length text"
    by (simp add: toTitleCase_def)
  have "map (map simpleLower) (map (convertToken style) (tokenize None text))
          = map (map simpleLower) (map original (tokenize None text))"
    using convertToken_plain [OF assms] by simp
  then have "map simpleLower (concat (map (convertToken style) (tokenize None text)))
          = map simpleLower (concat (map original (tokenize None text)))"
    by (simp only: map_concat)
  with c show "map simpleLower (toTitleCase None text style) = map simpleLower text"
    by (simp add: toTitleCase_def)
  show "plainText (toTitleCase None text style)"
    using convertToken_plain [OF assms]
    by (auto simp: toTitleCase_def plainText_def list_all_iff)
qed



section \<open>The claims\<close>

subsection \<open>The tokenizer and hyphens\<close>

text \<open>
  C1.  The claim is that a hyphen inside a run of non-white-space characters stays part
  of one word token, so that \<open>tokenize("state-of-the-art")\<close> is a single word token; the
  test \<open>word.includes('-')\<close> of \<open>applyStyleRules\<close> and \<open>handleHyphenatedWord\<close> are written
  for such tokens.  The code does otherwise: the tokenizer's regular expression lists the
  hyphen among the characters that end a word, so this text is four word tokens \<open>state\<close>,
  \<open>of\<close>, \<open>the\<close>, \<open>art\<close> with three separator tokens \<open>-\<close> between them.  The conversion
  then gives \<open>State-of-the-Art\<close> under AMA and \<open>Well-to-Do Man\<close> under APA, where
  \<open>handleHyphenatedWord\<close> gives \<open>State-Of-The-Art\<close> and \<open>Well-To-Do\<close> for the compounds.
\<close>

theorem tokenize_splits_hyphenated_compound:
  "map word (tokenize None (js ''state-of-the-art'')) =
     [Some (js ''state''), None, Some (js ''of''), None, Some (js ''the''), None,
      Some (js ''art'')]
   \<and> map original (tokenize None (js ''state-of-the-art'')) =
       [js ''state'', js ''-'', js ''of'', js ''-'', js ''the'', js ''-'', js ''art'']
   \<and> map word (tokenize None (js ''state-of-the-art'')) \<noteq> [Some (js ''state-of-the-art'')]
   \<and> toTitleCase None (js ''state-of-the-art'') (js ''AMA'') = js ''State-of-the-Art''
   \<and> handleHyphenatedWord (js ''state-of-the-art'') True True (js ''AMA'')
       = js ''State-Of-The-Art''
   \<and> toTitleCase None (js ''well-to-do man'') (js ''APA'') = js ''Well-to-Do Man''
   \<and> handleHyphenatedWord (js ''well-to-do'') True False (js ''APA'') = js ''Well-To-Do''"
  by code_simp

text \<open>
  C10.  No word token of \<open>tokenize\<close> contains a white-space character, a hyphen, an en
  dash or an em dash, so the test \<open>word.includes('-')\<close> at the top of \<open>applyStyleRules\<close> is
  false for every token \<open>toTitleCase\<close> passes on, and \<open>handleHyphenatedWord\<close> is not
  reached from \<open>toTitleCase\<close>.  Separator tokens, the hyphens among them, are emitted
  verbatim, and the two segments of a compound \<open>a-b\<close> are cased by the rules for the first
  and for the last word of the text.  Under AMA the conversion gives \<open>State-of-the-Art\<close>,
  where \<open>handleHyphenatedWord\<close> on the whole compound would give \<open>State-Of-The-Art\<close>.
\<close>

theorem word_tokens_never_hyphenated:
  "(\<forall>t\<in>set (tokenize nlp text). \<forall>w. word t = Some w \<longrightarrow>
      (\<forall>c\<in>set w. \<not> isWhiteSpace c \<and> c \<noteq> hyphen \<and> c \<noteq> enDash \<and> c \<noteq> emDash)
      \<and> \<not> contains w hyphen)
   \<and> (\<forall>t\<in>set (tokenize nlp text). word t = None \<longrightarrow> convertToken style t = original t)
   \<and> (\<forall>a b. a \<noteq> [] \<and> b \<noteq> [] \<and> (\<forall>c\<in>set (a @ b). \<not> isBoundary c) \<longrightarrow>
        \<not> contains a hyphen \<and> \<not> contains b hyphen \<and>
        toTitleCase None (a @ [hyphen] @ b) style =
          applyStyleRules a (toLowerCase a) True False False style None None
          @ [hyphen]
          @ applyStyleRules b (toLowerCase b) False True False style None None)
   \<and> toTitleCase None (js ''state-of-the-art'') (js ''AMA'') = js ''State-of-the-Art''
   \<and> handleHyphenatedWord (js ''state-of-the-art'') True True (js ''AMA'') = js ''State-Of-The-Art''"
proof -
  have p1: "\<forall>t\<in>set (tokenize nlp text). \<forall>w. word t = Some w \<longrightarrow>
      (\<forall>c\<in>set w. \<not> isWhiteSpace c \<and> c \<noteq> hyphen \<and> c \<noteq> enDash \<and> c \<noteq> emDash)
      \<and> \<not> contains w hyphen"
    using word_token_no_hyphen(1,4) [of _ nlp "text"] by (auto simp: isBoundary_def)
  have p2: "\<forall>t\<in>set (tokenize nlp text). word t = None \<longrightarrow> convertToken style t = original t"
    by (simp add: convertToken_def)
  have p3: "\<not> contains a hyphen \<and> \<not> contains b hyphen \<and>
        toTitleCase None (a @ [hyphen] @ b) style =
          applyStyleRules a (toLowerCase a) True False False style None None
          @ [hyphen]
          @ applyStyleRules b (toLowerCase b) False True False style None None"
    if h: "a \<noteq> [] \<and> b \<noteq> [] \<and> (\<forall>c\<in>set (a @ b). \<not> isBoundary c)" for a b
  proof -
    from h have "tokenize None (a @ [hyphen] @ b) =
           [wordToken a True False, separatorToken [hyphen], wordToken b False True]"
      by (intro tokenize_two_segments) auto
    with h isBoundary_hyphen show ?thesis
      by (auto simp: toTitleCase_def convertToken_def wordToken_def separatorToken_def
            contains_def)
  qed
  have p4: "toTitleCase None (js ''state-of-the-art'') (js ''AMA'') = js ''State-of-the-Art''"
    by code_simp
  have p5: "handleHyphenatedWord (js ''state-of-the-art'') True True (js ''AMA'')
              = js ''State-Of-The-Art''"
    by code_simp
  from p1 p2 p3 p4 p5 show ?thesis
    by blast
qed

theorem word_tokens_never_hyphenated_witness:
  "toTitleCase None (js ''follow-up'') (js ''AP'') = js ''Follow-Up''
   \<and> wordToken (js ''up'') False True \<in> set (tokenize None (js ''follow-up''))
   \<and> \<not> contains (js ''up'') hyphen"
proof -
  have h: "js ''follow'' \<noteq> [] \<and> js ''up'' \<noteq> []
             \<and> (\<forall>c\<in>set (js ''follow'' @ js ''up''). \<not> isBoundary c)"
    by code_simp
  have t: "wordToken (js ''up'') False True \<in> set (tokenize None (js ''follow-up''))"
    by code_simp
  have w: "word (wordToken (js ''up'') False True) = Some (js ''up'')"
    by (simp add: wordToken_def)
  note inst = word_tokens_never_hyphenated [of None "js ''follow-up''" "js ''AP''"]
  from inst h
  have "toTitleCase None (js ''follow'' @ [hyphen] @ js ''up'') (js ''AP'') =
          applyStyleRules (js ''follow'') (toLowerCase (js ''follow'')) True False False (js ''AP'')
            None None
          @ [hyphen]
          @ applyStyleRules (js ''up'') (toLowerCase (js ''up'')) False True False (js ''AP'')
              None None"
    by blast
  also have "\<dots> = js ''Follow-Up''"
    by code_simp
  also have "js ''follow'' @ [hyphen] @ js ''up'' = js ''follow-up''"
    by code_simp
  finally have e: "toTitleCase None (js ''follow-up'') (js ''AP'') = js ''Follow-Up''" .
  from inst t w have "\<not> contains (js ''up'') hyphen"
    by blast
  with e t show ?thesis
    by simp
qed

subsection \<open>Round trip, fixed point and input case\<close>




text \<open>
  C4, as amended.  For plain text and every style, with no tagger, converting the output
  again with the same style gives the same output.
\<close>

theorem toTitleCase_idempotent:
  "plainText text \<Longrightarrow>
   toTitleCase None (toTitleCase None text style) style = toTitleCase None text style"
proof -
  assume plain: "plainText text"
  note out = toTitleCase_plain [OF plain, of style]
  have "toTitleCase None (toTitleCase None text style) style
          = toTitleCase None (map simpleLower (toTitleCase None text style)) style"
    by (simp only: toTitleCase_lower [OF out(3)])
  also have "\<dots> = toTitleCase None (map simpleLower text) style"
    by (simp only: out(2))
  also have "\<dots> = toTitleCase None text style"
    by (rule toTitleCase_lower [OF plain])
  finally show ?thesis .
qed

theorem toTitleCase_idempotent_witness:
  "plainText (js ''the LORD of the rings'')
   \<and> toTitleCase None (toTitleCase None (js ''the LORD of the rings'') (js ''MLA'')) (js ''MLA'')
       = toTitleCase None (js ''the LORD of the rings'') (js ''MLA'')"
proof -
  have h: "plainText (js ''the LORD of the rings'')"
    by code_simp
  from h toTitleCase_idempotent [OF h, of "js ''MLA''"] show ?thesis
    by simp
qed

text \<open>
  C4 as stated fails for text that is not plain: sharp s followed by \<open>a\<close> becomes \<open>SSa\<close>, and
  \<open>SSa\<close> becomes \<open>Ssa\<close>.
\<close>

theorem toTitleCase_idempotent_counterexample:
  "toTitleCase None [0xDF, 0x61] (js ''Chicago'') = [0x53, 0x53, 0x61]
   \<and> toTitleCase None (toTitleCase None [0xDF, 0x61] (js ''Chicago'')) (js ''Chicago'')
       = [0x53, 0x73, 0x61]
   \<and> toTitleCase None (toTitleCase None [0xDF, 0x61] (js ''Chicago'')) (js ''Chicago'')
       \<noteq> toTitleCase None [0xDF, 0x61] (js ''Chicago'')"
  by code_simp

text \<open>
  C9, as amended.  For every style, with no tagger, two plain texts that are equal after
  \<open>toLowerCase\<close> have the same output.  Capitals inside a word are not kept:
  \<open>McDonald\<close> becomes \<open>Mcdonald\<close> under every style.
\<close>

theorem toTitleCase_ignores_input_case:
  "(plainText s1 \<and> plainText s2 \<and> toLowerCase s1 = toLowerCase s2 \<longrightarrow>
      toTitleCase None s1 style = toTitleCase None s2 style)
   \<and> toTitleCase None (js ''McDonald'') style = js ''Mcdonald''"
proof -
  have p1: "toTitleCase None s1 style = toTitleCase None s2 style"
    if h: "plainText s1 \<and> plainText s2 \<and> toLowerCase s1 = toLowerCase s2"
  proof -
    from h have a: "plainText s1" and b: "plainText s2"
      and c: "toLowerCase s1 = toLowerCase s2"
      by simp_all
    from c have e: "map simpleLower s1 = map simpleLower s2"
      by (simp only: toLowerCase_plain [OF a] toLowerCase_plain [OF b])
    have "toTitleCase None s1 style = toTitleCase None (map simpleLower s1) style"
      by (simp only: toTitleCase_lower [OF a])
    also have "\<dots> = toTitleCase None (map simpleLower s2) style"
      by (simp only: e)
    also have "\<dots> = toTitleCase None s2 style"
      by (rule toTitleCase_lower [OF b])
    finally show ?thesis .
  qed
  have t: "tokenize None (js ''McDonald'') = [wordToken (js ''McDonald'') True True]"
    by code_simp
  have n: "\<not> contains (js ''McDonald'') hyphen" and ne: "js ''McDonald'' \<noteq> []"
    by code_simp+
  have c: "capitalize (js ''McDonald'') = js ''Mcdonald''"
    by code_simp
  have p2: "toTitleCase None (js ''McDonald'') style = js ''Mcdonald''"
    using ne by (simp add: toTitleCase_def t convertToken_def wordToken_def
                   applyStyleRules_first [OF n] c)
  from p1 p2 show ?thesis
    by blast
qed

theorem toTitleCase_ignores_input_case_witness:
  "plainText (js ''WAR and Peace'') \<and> plainText (js ''war AND peace'')
   \<and> toLowerCase (js ''WAR and Peace'') = toLowerCase (js ''war AND peace'')
   \<and> toTitleCase None (js ''WAR and Peace'') (js ''AP'')
       = toTitleCase None (js ''war AND peace'') (js ''AP'')"
proof -
  have h: "plainText (js ''WAR and Peace'')" "plainText (js ''war AND peace'')"
    "toLowerCase (js ''WAR and Peace'') = toLowerCase (js ''war AND peace'')"
    by code_simp+
  from toTitleCase_ignores_input_case [of "js ''WAR and Peace''" "js ''war AND peace''" "js ''AP''"] h
  show ?thesis
    by blast
qed

text \<open>
  C9 as stated fails for text that is not plain: U+212A KELVIN SIGN and \<open>k\<close> have the same
  lower case, but \<open>toUpperCase\<close> leaves the Kelvin sign and turns \<open>k\<close> into \<open>K\<close>.
\<close>

theorem toTitleCase_ignores_input_case_counterexample:
  "toLowerCase [0x212A] = toLowerCase (js ''k'')
   \<and> toTitleCase None [0x212A] (js ''Chicago'') = [0x212A]
   \<and> toTitleCase None (js ''k'') (js ''Chicago'') = js ''K''
   \<and> toTitleCase None [0x212A] (js ''Chicago'') \<noteq> toTitleCase None (js ''k'') (js ''Chicago'')"
  by code_simp

subsection \<open>The style rules\<close>

text \<open>
  C3.  When the text has a word token, the first word token carries \<open>isFirstWord\<close>, the
  last one \<open>isLastWord\<close>; the first word is replaced by \<open>capitalize\<close> of itself under every
  style identifier (the eight styles among them), and so is the last word under every
  style other than AMA, APA and Bluebook.  This holds with and without a tagger.
  \<open>toTitleCase("a tale of two cities", "Chicago")\<close> is \<open>"A Tale of Two Cities"\<close>.
\<close>

theorem first_and_last_word_capitalized:
  "(wordTokens (tokenize nlp text) \<noteq> [] \<longrightarrow>
      isFirstWord (hd (wordTokens (tokenize nlp text)))
      \<and> isLastWord (last (wordTokens (tokenize nlp text)))
      \<and> convertToken style (hd (wordTokens (tokenize nlp text)))
          = capitalize (original (hd (wordTokens (tokenize nlp text))))
      \<and> (\<not> contains (map js [''AMA'', ''APA'', ''Bluebook'']) style \<longrightarrow>
           convertToken style (last (wordTokens (tokenize nlp text)))
             = capitalize (original (last (wordTokens (tokenize nlp text))))))
   \<and> toTitleCase nlp text style = concat (map (convertToken style) (tokenize nlp text))
   \<and> toTitleCase None (js ''a tale of two cities'') (js ''Chicago'') = js ''A Tale of Two Cities''"
proof -
  have general: "isFirstWord (hd ws) \<and> isLastWord (last ws)
      \<and> convertToken style (hd ws) = capitalize (original (hd ws))
      \<and> (\<not> contains (map js [''AMA'', ''APA'', ''Bluebook'']) style \<longrightarrow>
           convertToken style (last ws) = capitalize (original (last ws)))"
    if ws: "ws = wordTokens (tokenize nlp text)" and ne: "ws \<noteq> []" for ws
  proof -
    from ne have i0: "0 < length ws" and il: "length ws - 1 < length ws"
      by simp_all
    have hd: "hd ws = ws ! 0" and last: "last ws = ws ! (length ws - 1)"
      using ne by (simp_all add: hd_conv_nth last_conv_nth)
    have "isFirstWord (ws ! 0)"
      using wordTokens_flags(1) [of 0 nlp "text"] i0 unfolding ws by simp
    then have first: "isFirstWord (hd ws)"
      by (simp only: hd)
    have "isLastWord (ws ! (length ws - 1))"
      using wordTokens_flags(2) [of "length ws - 1" nlp "text"] il unfolding ws by simp
    then have lastw: "isLastWord (last ws)"
      by (simp only: last)
    from ne have "hd ws \<in> set ws" and "last ws \<in> set ws"
      by simp_all
    then have mem: "hd ws \<in> set (tokenize nlp text)" "last ws \<in> set (tokenize nlp text)"
      and w: "word (hd ws) \<noteq> None" "word (last ws) \<noteq> None"
      using wordTokens_subset [of _ "tokenize nlp text"] by (auto simp: ws)
    from w obtain a b where a: "word (hd ws) = Some a" and b: "word (last ws) = Some b"
      by auto
    note na = word_token_no_hyphen(1,3) [OF mem(1) a]
    note nb = word_token_no_hyphen(1,3) [OF mem(2) b]
    have ca: "convertToken style (hd ws) = capitalize (original (hd ws))"
      using first na by (simp add: convertToken_word [OF mem(1) a] applyStyleRules_first)
    have cb: "convertToken style (last ws) = capitalize (original (last ws))"
      if "\<not> contains (map js [''AMA'', ''APA'', ''Bluebook'']) style"
      using lastw nb that by (simp add: convertToken_word [OF mem(2) b] applyStyleRules_last)
    from first lastw ca cb show ?thesis
      by blast
  qed
  have example: "toTitleCase None (js ''a tale of two cities'') (js ''Chicago'')
                   = js ''A Tale of Two Cities''"
    by code_simp
  from general example show ?thesis
    by (simp add: toTitleCase_def)
qed

theorem first_and_last_word_capitalized_witness:
  "wordTokens (tokenize None (js ''a tale of two cities'')) \<noteq> []
   \<and> \<not> contains (map js [''AMA'', ''APA'', ''Bluebook'']) (js ''MLA'')
   \<and> convertToken (js ''MLA'') (last (wordTokens (tokenize None (js ''a tale of two cities''))))
       = capitalize (original (last (wordTokens (tokenize None (js ''a tale of two cities'')))))
   \<and> convertToken (js ''MLA'') (hd (wordTokens (tokenize None (js ''a tale of two cities''))))
       = capitalize (original (hd (wordTokens (tokenize None (js ''a tale of two cities'')))))"
proof -
  have h1: "wordTokens (tokenize None (js ''a tale of two cities'')) \<noteq> []"
    by code_simp
  have h2: "\<not> contains (map js [''AMA'', ''APA'', ''Bluebook'']) (js ''MLA'')"
    by code_simp
  from first_and_last_word_capitalized [of None "js ''a tale of two cities''" "js ''MLA''"] h1 h2
  show ?thesis
    by blast
qed

text \<open>
  C5.  With no tagger and under MLA, a word token whose lower-case form is in the
  preposition lists and which is neither the first nor the last word is replaced by its
  lower-case form, whatever its length: \<open>beyond\<close> has six letters, and
  \<open>toTitleCase("life beyond the stars", "MLA")\<close> is \<open>"Life beyond the Stars"\<close>.
\<close>

theorem mla_lowercases_all_prepositions:
  "(\<forall>t\<in>set (tokenize None text). \<forall>w.
      word t = Some w \<and> isPreposition (toLowerCase w) \<and> \<not> isFirstWord t \<and> \<not> isLastWord t
      \<longrightarrow> convertToken (js ''MLA'') t = toLowerCase w)
   \<and> isPreposition (js ''beyond'') \<and> length (js ''beyond'') = 6
   \<and> toTitleCase None (js ''life beyond the stars'') (js ''MLA'') = js ''Life beyond the Stars''"
proof -
  have general: "convertToken (js ''MLA'') t = toLowerCase w"
    if t: "t \<in> set (tokenize None text)" and w: "word t = Some w"
      and p: "isPreposition (toLowerCase w)" and f: "\<not> isFirstWord t" "\<not> isLastWord t"
    for t w
  proof -
    have mla: "js ''MLA'' \<noteq> js ''AMA''" "js ''MLA'' \<noteq> js ''AP''" "js ''MLA'' \<noteq> js ''APA''"
      "js ''MLA'' \<noteq> js ''Bluebook''" "js ''MLA'' \<noteq> js ''Chicago''"
      by (simp_all add: js_def)
    from tokenize_untagged [OF t] f word_token_no_hyphen(1) [OF t w] p mla show ?thesis
      by (simp add: convertToken_word [OF t w] applyStyleRules_static applyMLARules_preposition)
  qed
  have e1: "isPreposition (js ''beyond'')" by code_simp
  have e2: "length (js ''beyond'') = 6" by code_simp
  have e3: "toTitleCase None (js ''life beyond the stars'') (js ''MLA'') = js ''Life beyond the Stars''"
    by code_simp
  from general e1 e2 e3 show ?thesis
    by blast
qed

theorem mla_lowercases_all_prepositions_witness:
  "wordToken (js ''Beyond'') False False \<in> set (tokenize None (js ''life Beyond the stars''))
   \<and> isPreposition (toLowerCase (js ''Beyond''))
   \<and> convertToken (js ''MLA'') (wordToken (js ''Beyond'') False False) = toLowerCase (js ''Beyond'')"
proof -
  have h1: "wordToken (js ''Beyond'') False False \<in> set (tokenize None (js ''life Beyond the stars''))"
    by code_simp
  have h2: "isPreposition (toLowerCase (js ''Beyond''))"
    by code_simp
  have h3: "word (wordToken (js ''Beyond'') False False) = Some (js ''Beyond'')"
    "\<not> isFirstWord (wordToken (js ''Beyond'') False False)"
    "\<not> isLastWord (wordToken (js ''Beyond'') False False)"
    by (simp_all add: wordToken_def)
  from mla_lowercases_all_prepositions [of "js ''life Beyond the stars''"] h1 h2 h3
  show ?thesis
    by blast
qed

text \<open>
  C6.  With no tagger, \<open>toTitleCase("state-of-the-art design", "Chicago")\<close> is
  \<open>"State-of-the-Art Design"\<close>: of the nine tokens, \<open>state\<close> is the first word and becomes
  \<open>State\<close>, the preposition \<open>of\<close> (two letters) and the article \<open>the\<close> stay in lower case,
  \<open>art\<close> and \<open>design\<close> are capitalized, and the separators are unchanged.
\<close>

theorem chicago_state_of_the_art:
  "toTitleCase None (js ''state-of-the-art design'') (js ''Chicago'') = js ''State-of-the-Art Design''
   \<and> map (convertToken (js ''Chicago'')) (tokenize None (js ''state-of-the-art design'')) =
       [js ''State'', js ''-'', js ''of'', js ''-'', js ''the'', js ''-'', js ''Art'', js '' '',
        js ''Design'']
   \<and> map isFirstWord (tokenize None (js ''state-of-the-art design'')) =
       [True, False, False, False, False, False, False, False, False]
   \<and> isPreposition (js ''of'') \<and> length (js ''of'') \<le> 4 \<and> contains articles (js ''the'')"
  by code_simp

text \<open>
  C7.  With no tagger and under the style "New York Times", a word that is neither first
  nor last is capitalized when its lower-case form is in the capitalize list and
  replaced by its lower-case form when that is in the lower-case list; a word of four
  or more code units is capitalized wherever it stands.  The two lists are the ones of
  the claim, and \<open>toTitleCase("up in arms", "New York Times")\<close> is \<open>"Up in Arms"\<close>.
\<close>

theorem nyt_override_lists:
  "(\<forall>t\<in>set (tokenize None text). \<forall>w.
      word t = Some w \<and> \<not> isFirstWord t \<and> \<not> isLastWord t \<longrightarrow>
        (contains nytCapitalizeWords (toLowerCase w) \<longrightarrow>
           convertToken (js ''New York Times'') t = capitalize w) \<and>
        (contains nytLowercaseWords (toLowerCase w) \<longrightarrow>
           convertToken (js ''New York Times'') t = toLowerCase w))
   \<and> (\<forall>t\<in>set (tokenize None text). \<forall>w.
        word t = Some w \<and> length w \<ge> 4 \<longrightarrow>
          convertToken (js ''New York Times'') t = capitalize w)
   \<and> nytCapitalizeWords = map js [''no'', ''nor'', ''not'', ''off'', ''out'', ''so'', ''up'']
   \<and> nytLowercaseWords = map js
       [''a'', ''and'', ''as'', ''at'', ''but'', ''by'', ''en'', ''for'', ''if'', ''in'', ''of'', ''on'',
        ''or'', ''the'', ''to'', ''v.'', ''vs.'', ''via'']
   \<and> toTitleCase None (js ''up in arms'') (js ''New York Times'') = js ''Up in Arms''"
proof -
  have nyt: "js ''New York Times'' \<noteq> js ''AMA''" "js ''New York Times'' \<noteq> js ''AP''"
    "js ''New York Times'' \<noteq> js ''APA''" "js ''New York Times'' \<noteq> js ''Bluebook''"
    "js ''New York Times'' \<noteq> js ''Chicago''" "js ''New York Times'' \<noteq> js ''MLA''"
    by (simp_all add: js_def)
  have mid: "convertToken (js ''New York Times'') t = applyNYTRules w (toLowerCase w)"
    if t: "t \<in> set (tokenize None text)" and w: "word t = Some w"
      and f: "\<not> isFirstWord t" "\<not> isLastWord t" for t w
    using tokenize_untagged [OF t] f word_token_no_hyphen(1) [OF t w] nyt
    by (simp add: convertToken_word [OF t w] applyStyleRules_static)
  have p1: "\<forall>t\<in>set (tokenize None text). \<forall>w.
      word t = Some w \<and> \<not> isFirstWord t \<and> \<not> isLastWord t \<longrightarrow>
        (contains nytCapitalizeWords (toLowerCase w) \<longrightarrow>
           convertToken (js ''New York Times'') t = capitalize w) \<and>
        (contains nytLowercaseWords (toLowerCase w) \<longrightarrow>
           convertToken (js ''New York Times'') t = toLowerCase w)"
    using mid applyNYTRules_cases(2,3) by simp
  have long: "convertToken (js ''New York Times'') t = capitalize w"
    if t: "t \<in> set (tokenize None text)" and w: "word t = Some w" and l: "length w \<ge> 4" for t w
  proof (cases "isFirstWord t")
    case True
    with word_token_no_hyphen(1) [OF t w] show ?thesis
      by (simp add: convertToken_word [OF t w] applyStyleRules_first)
  next
    case notfirst: False
    show ?thesis
    proof (cases "isLastWord t")
      case True
      have "\<not> contains (map js [''AMA'', ''APA'', ''Bluebook'']) (js ''New York Times'')"
        using nyt by (simp add: contains_def)
      with True word_token_no_hyphen(1) [OF t w] show ?thesis
        by (simp add: convertToken_word [OF t w] applyStyleRules_last)
    next
      case False
      with notfirst mid [OF t w] applyNYTRules_cases(1) [OF l] show ?thesis
        by simp
    qed
  qed
  have e: "toTitleCase None (js ''up in arms'') (js ''New York Times'') = js ''Up in Arms''"
    by code_simp
  from p1 long e show ?thesis
    by (simp add: nytCapitalizeWords_def nytLowercaseWords_def)
qed

theorem nyt_override_lists_witness:
  "wordToken (js ''IN'') False False \<in> set (tokenize None (js ''up IN arms''))
   \<and> contains nytLowercaseWords (toLowerCase (js ''IN''))
   \<and> convertToken (js ''New York Times'') (wordToken (js ''IN'') False False) = toLowerCase (js ''IN'')"
proof -
  have h1: "wordToken (js ''IN'') False False \<in> set (tokenize None (js ''up IN arms''))"
    by code_simp
  have h2: "contains nytLowercaseWords (toLowerCase (js ''IN''))"
    by code_simp
  have h3: "word (wordToken (js ''IN'') False False) = Some (js ''IN'')"
    "\<not> isFirstWord (wordToken (js ''IN'') False False)"
    "\<not> isLastWord (wordToken (js ''IN'') False False)"
    by (simp_all add: wordToken_def)
  from nyt_override_lists [of "js ''up IN arms''"] h1 h2 h3
  show ?thesis
    by blast
qed

text \<open>
  C8.  With no tagger and a style identifier that is none of the eight, every word token
  is replaced by \<open>capitalize\<close> of itself and every separator is unchanged.  The conversion
  is a total function: the source has no \<open>throw\<close> on this path, and the string and array
  methods it calls are defined for every string.
\<close>

theorem unknown_style_capitalizes_every_word:
  "\<not> contains styleGuides style \<Longrightarrow>
   (\<forall>t\<in>set (tokenize None text). \<forall>w. word t = Some w \<longrightarrow> convertToken style t = capitalize w)
   \<and> (\<forall>t\<in>set (tokenize None text). word t = None \<longrightarrow> convertToken style t = original t)
   \<and> toTitleCase None text style =
       concat (map (\<lambda>t. case word t of None \<Rightarrow> original t | Some w \<Rightarrow> capitalize w)
                 (tokenize None text))"
proof -
  assume u: "\<not> contains styleGuides style"
  have p1: "convertToken style t = capitalize w"
    if t: "t \<in> set (tokenize None text)" and w: "word t = Some w" for t w
    using tokenize_untagged [OF t] word_token_no_hyphen(1) [OF t w] u
    by (simp add: convertToken_word [OF t w] applyStyleRules_unknown)
  have p2: "convertToken style t = original t" if "word t = None" for t
    using that by (simp add: convertToken_def)
  have "map (convertToken style) (tokenize None text) =
        map (\<lambda>t. case word t of None \<Rightarrow> original t | Some w \<Rightarrow> capitalize w) (tokenize None text)"
    using p1 p2 by (auto split: option.splits)
  then have p3: "toTitleCase None text style =
       concat (map (\<lambda>t. case word t of None \<Rightarrow> original t | Some w \<Rightarrow> capitalize w)
                 (tokenize None text))"
    by (simp only: toTitleCase_def)
  from p1 p2 p3 show ?thesis
    by blast
qed

theorem unknown_style_capitalizes_every_word_witness:
  "\<not> contains styleGuides (js ''Oxford'')
   \<and> toTitleCase None (js ''war and peace'') (js ''Oxford'') = js ''War And Peace''"
proof -
  have h: "\<not> contains styleGuides (js ''Oxford'')"
    by code_simp
  have "toTitleCase None (js ''war and peace'') (js ''Oxford'') =
       concat (map (\<lambda>t. case word t of None \<Rightarrow> original t | Some w \<Rightarrow> capitalize w)
                 (tokenize None (js ''war and peace'')))"
    using unknown_style_capitalizes_every_word [OF h, of "js ''war and peace''"] by blast
  also have "\<dots> = js ''War And Peace''"
    by code_simp
  finally show ?thesis
    using h by simp
qed

end
